theory Spec2Isabelle
  imports Complex_Main "HOL-Library.Word"
begin

unbundle bit_operations_syntax

section \<open>SiPixelDynamicInefficiency payload inspector: decoding and matching core\<close>

text \<open>
  The development follows
  \<^verbatim>\<open>CondCore/SiPixelPlugins/plugins/SiPixelDynamicInefficiency_PayloadInspector.cc\<close>.
  Raw detector identifiers (\<^verbatim>\<open>uint32_t\<close>, \<^verbatim>\<open>unsigned int\<close>) are 32-bit words.
  The factors that \<^verbatim>\<open>getMatchingGeomFactor\<close> multiplies are IEEE 754 double precision
  numbers with their rounding. Where a \<^verbatim>\<open>double\<close> or \<^verbatim>\<open>float\<close> is only stored or copied,
  and in the subtraction of \<^verbatim>\<open>pbrf\<close>, it is idealised as a real number.
  A \<^verbatim>\<open>std::map\<close> is given by the list of its entries in iteration order (ascending
  keys); the results below that quantify over every list hold in particular for those.
\<close>

type_synonym u32 = "32 word"

subsection \<open>Detector identifiers\<close>

text \<open>
  Modelled from the spec: the class \<^verbatim>\<open>DetId\<close> (DataFormats/DetId) and the enumeration
  \<^verbatim>\<open>PixelSubdetector\<close> are not part of the inspected file. The subsystem tag is read
  from fixed high bits of the identifier, and the two-argument constructor packs a detector
  and a subdetector into an identifier whose other bits are zero (the "subsystem root").
  The specification names no bit positions; the layout taken here is the one of the CMS
  identifier: the detector in the four bits from bit 28, the subdetector in the three bits
  from bit 25, the pixel barrel with subdetector 1 and the pixel endcap with subdetector 2.
  The results that hold for every identifier do not depend on the positions, except that
  the tag lies above the region fields of bits 3 to 10.
\<close>

definition kDetOffset :: nat where "kDetOffset = 28"
definition kSubdetOffset :: nat where "kSubdetOffset = 25"
definition kDetMask :: u32 where "kDetMask = 0xF"
definition kSubdetMask :: u32 where "kSubdetMask = 0x7"

definition det :: "u32 \<Rightarrow> u32" where
  "det rawId = drop_bit kDetOffset rawId AND kDetMask"

definition subdetId :: "u32 \<Rightarrow> u32" where
  "subdetId rawId = drop_bit kSubdetOffset rawId AND kSubdetMask"

definition DetId2 :: "u32 \<Rightarrow> u32 \<Rightarrow> u32" where
  "DetId2 d subdet =
     push_bit kDetOffset (d AND kDetMask) OR push_bit kSubdetOffset (subdet AND kSubdetMask)"

definition PixelBarrel :: u32 where "PixelBarrel = 1"
definition PixelEndcap :: u32 where "PixelEndcap = 2"

subsection \<open>Unpacking the bad-ROC fractions (\<^verbatim>\<open>pbrf\<close>)\<close>

definition FPixRocIdShift :: nat where "FPixRocIdShift = 3"
definition BPixRocIdShift :: nat where "BPixRocIdShift = 6"
definition rocIdMaskBits :: u32 where "rocIdMaskBits = 0x1F"

record packedBadRocFraction =
  badRocNumber :: "int list"
  badRocFrac :: "real list"

type_synonym BRFractions = "u32 \<rightharpoonup> packedBadRocFraction"

text \<open>Lines 73 to 77: the shift chosen from the subdetector, and the two parts of a key.\<close>

definition rocShift :: "u32 \<Rightarrow> nat" where
  "rocShift key = (if subdetId key = PixelBarrel then BPixRocIdShift else FPixRocIdShift)"

definition rocMaskAt :: "nat \<Rightarrow> u32" where
  "rocMaskAt shift = push_bit shift rocIdMaskBits"

definition rocIdAt :: "nat \<Rightarrow> u32 \<Rightarrow> u32" where
  "rocIdAt shift key = drop_bit shift (key AND rocMaskAt shift)"

definition rawidAt :: "nat \<Rightarrow> u32 \<Rightarrow> u32" where
  "rawidAt shift key = key AND NOT (rocMaskAt shift)"

definition extractRegion :: "u32 \<Rightarrow> u32 \<times> u32" where
  "extractRegion key = (let shift = rocShift key in (rawidAt shift key, rocIdAt shift key))"

text \<open>
  \<^verbatim>\<open>f.at(rawid)\<close> throws \<^verbatim>\<open>std::out_of_range\<close> when the key is absent: \<open>None\<close>.
  Otherwise the record stored under the key is changed in place.
\<close>

definition at_modify ::
  "BRFractions \<Rightarrow> u32 \<Rightarrow> (packedBadRocFraction \<Rightarrow> packedBadRocFraction) \<Rightarrow> BRFractions option"
where
  "at_modify f rawid g = (case f rawid of None \<Rightarrow> None | Some p \<Rightarrow> Some (f(rawid \<mapsto> g p)))"

text \<open>
  The body of the loop of \<^verbatim>\<open>pbrf\<close> (lines 73 to 91) for one entry of the payload's
  map. The region number is stored into a \<^verbatim>\<open>std::vector<int>\<close>, hence \<open>sint\<close>.
\<close>

definition pbrf_entry :: "BRFractions \<Rightarrow> u32 \<times> real \<Rightarrow> BRFractions option" where
  "pbrf_entry f db_factor =
     (let shift = rocShift (fst db_factor);
          rocId = rocIdAt shift (fst db_factor);
          rawid = rawidAt shift (fst db_factor);
          f1 = (if f rawid = None then f(rawid \<mapsto> \<lparr>badRocNumber = [], badRocFrac = []\<rparr>) else f)
      in if rocId \<noteq> 0 then
           (let rocId' = rocId - 1;
                factor = snd db_factor;
                badFraction = 1 - factor
            in case at_modify f1 rawid (\<lambda>p. p\<lparr>badRocNumber := badRocNumber p @ [sint rocId']\<rparr>) of
                 None \<Rightarrow> None
               | Some f2 \<Rightarrow> at_modify f2 rawid (\<lambda>p. p\<lparr>badRocFrac := badRocFrac p @ [badFraction]\<rparr>))
         else Some f1)"

fun pbrf_loop :: "BRFractions \<Rightarrow> (u32 \<times> real) list \<Rightarrow> BRFractions option" where
  "pbrf_loop f [] = Some f"
| "pbrf_loop f (db_factor # rest) =
     (case pbrf_entry f db_factor of None \<Rightarrow> None | Some f' \<Rightarrow> pbrf_loop f' rest)"

text \<open>The argument is the content of \<^verbatim>\<open>payload->getPixelGeomFactors()\<close>.\<close>

definition pbrf :: "(u32 \<times> real) list \<Rightarrow> BRFractions option" where
  "pbrf PixelGeomFactorsDBIn = pbrf_loop Map.empty PixelGeomFactorsDBIn"

text \<open>
  Auxiliary notions for stating what \<^verbatim>\<open>pbrf\<close> returns: the module and the raw region
  of an entry, the entries of a module that carry a region, and a record extended by the
  region records of a list of entries.
\<close>

definition moduleOf :: "u32 \<times> real \<Rightarrow> u32" where
  "moduleOf e = fst (extractRegion (fst e))"
definition regionOf :: "u32 \<times> real \<Rightarrow> u32" where
  "regionOf e = snd (extractRegion (fst e))"
definition regionEntries :: "u32 \<Rightarrow> (u32 \<times> real) list \<Rightarrow> (u32 \<times> real) list" where
  "regionEntries rawid es = filter (\<lambda>e. moduleOf e = rawid \<and> regionOf e \<noteq> 0) es"
definition appended :: "packedBadRocFraction \<Rightarrow> (u32 \<times> real) list \<Rightarrow> packedBadRocFraction" where
  "appended p es = \<lparr>badRocNumber = badRocNumber p @ map (\<lambda>e. sint (regionOf e - 1)) es,
                    badRocFrac = badRocFrac p @ map (\<lambda>e. 1 - snd e) es\<rparr>"
definition emptyFraction :: packedBadRocFraction where
  "emptyFraction = \<lparr>badRocNumber = [], badRocFrac = []\<rparr>"
definition recordAt :: "BRFractions \<Rightarrow> u32 \<Rightarrow> packedBadRocFraction" where
  "recordAt f rawid = (case f rawid of None \<Rightarrow> emptyFraction | Some p \<Rightarrow> p)"

subsection \<open>Double precision numbers\<close>

text \<open>
  The factors multiplied by \<^verbatim>\<open>getMatchingGeomFactor\<close> are of the C++ type \<^verbatim>\<open>double\<close>:
  IEEE 754 binary64 numbers, multiplied with rounding to nearest, ties to even. A finite
  number \<open>Finite s m e\<close> has the value \<open>m * 2 ^ e\<close>, negated when \<open>s\<close> holds; it is in
  canonical form when \<open>m < 2 ^ 53\<close> and \<open>- 1074 \<le> e \<le> 971\<close>, with \<open>2 ^ 52 \<le> m\<close> unless
  \<open>e = - 1074\<close> (zero and the subnormal numbers). The payload and the sign of a NaN are
  not distinguished.
\<close>

datatype double = Finite bool nat int | Infinity bool | NaN

fun bit_length :: "nat \<Rightarrow> nat" where
  "bit_length n = (if n = 0 then 0 else Suc (bit_length (n div 2)))"

declare bit_length.simps [simp del]

text \<open>The quotient of \<open>M\<close> by \<open>2 ^ k\<close>, rounded to nearest, ties to even.\<close>

definition round_half_even :: "nat \<Rightarrow> nat \<Rightarrow> nat" where
  "round_half_even M k =
     (let q = M div 2 ^ k; r = M mod 2 ^ k
      in if 2 * r > 2 ^ k \<or> (2 * r = 2 ^ k \<and> odd q) then q + 1 else q)"

text \<open>
  The double nearest to the exact value \<open>M * 2 ^ E\<close> with sign \<open>s\<close>: the result keeps at
  most 53 significant bits and an exponent of at least \<open>- 1074\<close>, and overflows to
  infinity.
\<close>

definition round_to_double :: "bool \<Rightarrow> nat \<Rightarrow> int \<Rightarrow> double" where
  "round_to_double s M E =
     (if M = 0 then Finite s 0 (- 1074)
      else
        (let e = max (E + int (bit_length M) - 53) (- 1074);
             m = (if e \<le> E then M * 2 ^ nat (E - e) else round_half_even M (nat (e - E)))
         in if m = 2 ^ 53 then (if e + 1 > 971 then Infinity s else Finite s (2 ^ 52) (e + 1))
            else if e > 971 then Infinity s
            else Finite s m e))"

fun dmul :: "double \<Rightarrow> double \<Rightarrow> double" where
  "dmul NaN y = NaN"
| "dmul x NaN = NaN"
| "dmul (Infinity s) (Infinity t) = Infinity (s \<noteq> t)"
| "dmul (Infinity s) (Finite t n f) = (if n = 0 then NaN else Infinity (s \<noteq> t))"
| "dmul (Finite s m e) (Infinity t) = (if m = 0 then NaN else Infinity (s \<noteq> t))"
| "dmul (Finite s m e) (Finite t n f) = round_to_double (s \<noteq> t) (m * n) (e + f)"

text \<open>The number 1.0 and the product of two doubles.\<close>

instantiation double :: "{one, times}"
begin

definition one_double :: double where
  "one_double = Finite False (2 ^ 52) (- 52)"

definition times_double :: "double \<Rightarrow> double \<Rightarrow> double" where
  "times_double = dmul"

instance ..

end

text \<open>The real number that a finite double stands for.\<close>

fun valof :: "double \<Rightarrow> real option" where
  "valof (Finite s m e) =
     Some ((if s then - 1 else 1) * real m * (if 0 \<le> e then 2 ^ nat e else 1 / 2 ^ nat (- e)))"
| "valof (Infinity s) = None"
| "valof NaN = None"

text \<open>
  The doubles that the literals \<^verbatim>\<open>0.9\<close>, \<^verbatim>\<open>0.8\<close>, \<^verbatim>\<open>0.72\<close> and \<^verbatim>\<open>2.0\<close> denote
  (\<^verbatim>\<open>0x1.ccccccccccccdp-1\<close>, \<^verbatim>\<open>0x1.999999999999ap-1\<close>, \<^verbatim>\<open>0x1.70a3d70a3d70ap-1\<close>,
  \<^verbatim>\<open>0x1p+1\<close>).
\<close>

definition double_0_9 :: double where
  "double_0_9 = Finite False 0x1CCCCCCCCCCCCD (- 53)"

definition double_0_8 :: double where
  "double_0_8 = Finite False 0x1999999999999A (- 53)"

definition double_0_72 :: double where
  "double_0_72 = Finite False 0x170A3D70A3D70A (- 53)"

definition double_2 :: double where
  "double_2 = Finite False (2 ^ 52) (- 51)"

subsection \<open>Resolving the factors of a detector\<close>

text \<open>
  The loop over the masks, lines 126 to 134 of \<^verbatim>\<open>getMatchingGeomFactor\<close> and, with the
  same text, lines 151 to 159 of \<^verbatim>\<open>getMatchingPUFactors\<close>. The result is the value of
  the counter \<^verbatim>\<open>__i\<close> when the loop is left: by \<^verbatim>\<open>break\<close> at a disqualifying mask, or at
  the size of the mask list.
\<close>

function maskLoop :: "u32 \<Rightarrow> u32 \<Rightarrow> u32 list \<Rightarrow> nat \<Rightarrow> nat" where
  "maskLoop detid mapid detIdmasks i =
     (if i < length detIdmasks then
        (let maskid = detIdmasks ! i in
         if subdetId maskid \<noteq> subdetId mapid then maskLoop detid mapid detIdmasks (i + 1)
         else if (detid AND maskid) \<noteq> (mapid AND maskid)
                 \<and> (mapid AND maskid) \<noteq> DetId2 (det mapid) (subdetId mapid)
              then i
              else maskLoop detid mapid detIdmasks (i + 1))
      else i)"
  by pat_completeness auto
termination
  by (relation "measure (\<lambda>(detid, mapid, detIdmasks, i). length detIdmasks - i)") auto

declare maskLoop.simps [simp del]

text \<open>The body of the loop over the map of \<^verbatim>\<open>getMatchingGeomFactor\<close> (lines 123 to 137).\<close>

definition geomfactor_entry :: "u32 \<Rightarrow> u32 list \<Rightarrow> double \<Rightarrow> u32 \<times> double \<Rightarrow> double" where
  "geomfactor_entry detid detIdmasks geomfactor_db map_element =
     (let mapid = fst map_element in
      if subdetId mapid \<noteq> subdetId detid then geomfactor_db
      else let i = maskLoop detid mapid detIdmasks 0 in
           if i \<noteq> length detIdmasks then geomfactor_db
           else geomfactor_db * snd map_element)"

definition getMatchingGeomFactor ::
  "u32 \<Rightarrow> (u32 \<times> double) list \<Rightarrow> u32 list \<Rightarrow> double"
where
  "getMatchingGeomFactor detid map_geomfactor detIdmasks =
     foldl (geomfactor_entry detid detIdmasks) 1 map_geomfactor"

text \<open>The body of the loop over the map of \<^verbatim>\<open>getMatchingPUFactors\<close> (lines 148 to 162).\<close>

definition pufactors_entry ::
  "u32 \<Rightarrow> u32 list \<Rightarrow> real list \<Rightarrow> u32 \<times> real list \<Rightarrow> real list"
where
  "pufactors_entry detid detIdmasks pufactors_db map_element =
     (let mapid = fst map_element in
      if subdetId mapid \<noteq> subdetId detid then pufactors_db
      else let i = maskLoop detid mapid detIdmasks 0 in
           if i \<noteq> length detIdmasks then pufactors_db
           else snd map_element)"

definition getMatchingPUFactors ::
  "u32 \<Rightarrow> (u32 \<times> real list) list \<Rightarrow> u32 list \<Rightarrow> real list"
where
  "getMatchingPUFactors detid map_pufactory detIdmasks =
     foldl (pufactors_entry detid detIdmasks) [] map_pufactory"

text \<open>
  An entry of either map takes effect exactly when neither \<^verbatim>\<open>continue\<close> of the loop body
  is taken: the subdetectors agree and the loop over the masks ran to the end.
\<close>

definition entryApplies :: "u32 \<Rightarrow> u32 \<Rightarrow> u32 list \<Rightarrow> bool" where
  "entryApplies detid mapid detIdmasks \<longleftrightarrow>
     subdetId mapid = subdetId detid \<and> maskLoop detid mapid detIdmasks 0 = length detIdmasks"

text \<open>
  The matching predicate in the words of the specification, for comparison with the code:
  the wildcard pattern is the subsystem root identifier masked by the mask.
\<close>

definition spec_matchPredicate :: "u32 \<Rightarrow> u32 \<Rightarrow> u32 list \<Rightarrow> bool" where
  "spec_matchPredicate targetId storedId masks \<longleftrightarrow>
     subdetId targetId = subdetId storedId
     \<and> (\<forall>m \<in> set masks. subdetId m = subdetId storedId \<longrightarrow>
           (targetId AND m) = (storedId AND m)
         \<or> (storedId AND m) = (DetId2 (det storedId) (subdetId storedId) AND m))"

text \<open>What one mask demands of a stored identifier, as the loop over the masks tests it.\<close>

definition maskAccepts :: "u32 \<Rightarrow> u32 \<Rightarrow> u32 \<Rightarrow> bool" where
  "maskAccepts detid mapid maskid \<longleftrightarrow>
     (subdetId maskid = subdetId mapid \<longrightarrow>
        (detid AND maskid) = (mapid AND maskid)
      \<or> (mapid AND maskid) = DetId2 (det mapid) (subdetId mapid))"

text \<open>
  A sample mask list for the examples: three barrel masks (fields at bits 20, 12 and 2)
  followed by five endcap masks (fields at bits 23, 18, 12, 10 and 2).
\<close>

definition phase1_masks :: "u32 list" where
  "phase1_masks = [0x12F00000, 0x120FF000, 0x12000FFC,
                   0x15800000, 0x143C0000, 0x1403F000, 0x14000C00, 0x140003FC]"

subsection \<open>Checking the masks against a geometry (\<^verbatim>\<open>checkPhase\<close>)\<close>

text \<open>
  Modelled from the spec: the enumeration \<^verbatim>\<open>SiPixelPI::phase\<close> and the class
  \<^verbatim>\<open>TrackerTopology\<close> with \<^verbatim>\<open>StandaloneTrackerTopology::fromTrackerParametersXMLFile\<close>
  are not part of the inspected file. There are three phases. A topology is taken as its
  two identifier constructors for the pixel barrel (layer, ladder, module) and the pixel
  endcap (side, disk, blade, panel, module), each returning the raw identifier; the
  function that reads a topology from a parameter file is a parameter of \<^verbatim>\<open>checkPhase\<close>.
\<close>

datatype phase = phase_zero | phase_one | phase_two

record TrackerTopology =
  pxbDetId :: "u32 \<Rightarrow> u32 \<Rightarrow> u32 \<Rightarrow> u32"
  pxfDetId :: "u32 \<Rightarrow> u32 \<Rightarrow> u32 \<Rightarrow> u32 \<Rightarrow> u32 \<Rightarrow> u32"

text \<open>The \<^verbatim>\<open>switch\<close> of lines 188 to 198.\<close>

definition inputFile :: "phase \<Rightarrow> string" where
  "inputFile ph =
     (case ph of
        phase_zero \<Rightarrow> ''Geometry/TrackerCommonData/data/trackerParameters.xml''
      | phase_one \<Rightarrow> ''Geometry/TrackerCommonData/data/PhaseI/trackerParameters.xml''
      | phase_two \<Rightarrow> ''Geometry/TrackerCommonData/data/PhaseII/trackerParameters.xml'')"

text \<open>Lines 207 to 217; \<open>max\<close> is \<^verbatim>\<open>std::numeric_limits<uint32_t>::max()\<close>.\<close>

definition masks_geom :: "TrackerTopology \<Rightarrow> u32 list" where
  "masks_geom tkTopo =
     (let max = (- 1 :: u32) in
      [pxbDetId tkTopo max 0 0,
       pxbDetId tkTopo 0 max 0,
       pxbDetId tkTopo 0 0 max,
       pxfDetId tkTopo max 0 0 0 0,
       pxfDetId tkTopo 0 max 0 0 0,
       pxfDetId tkTopo 0 0 max 0 0,
       pxfDetId tkTopo 0 0 0 max 0,
       pxfDetId tkTopo 0 0 0 0 max])"

text \<open>
  \<^verbatim>\<open>std::equal(first1, last1, first2)\<close> compares the first range with as many elements
  from \<^verbatim>\<open>first2\<close> on. Reading past the end of the second range is not defined; the
  size test of \<^verbatim>\<open>checkPhase\<close> comes first, so that case is never reached.
\<close>

fun std_equal :: "u32 list \<Rightarrow> u32 list \<Rightarrow> bool" where
  "std_equal [] ys = True"
| "std_equal (x # xs) (y # ys) = (x = y \<and> std_equal xs ys)"
| "std_equal (x # xs) [] = False"

definition checkPhase :: "(string \<Rightarrow> TrackerTopology) \<Rightarrow> phase \<Rightarrow> u32 list \<Rightarrow> bool" where
  "checkPhase fromTrackerParametersXMLFile ph masks_db =
     (let tkTopo = fromTrackerParametersXMLFile (inputFile ph);
          masks = masks_geom tkTopo
      in length masks = length masks_db \<and> std_equal masks masks_db)"

text \<open>
  Sample topologies for the examples. Each packs its fields at fixed start bits over the
  tracker root identifier of the barrel (\<open>0x12000000\<close>) or the endcap (\<open>0x14000000\<close>).
\<close>

definition sampleTopology0 :: TrackerTopology where
  "sampleTopology0 =
     \<lparr>pxbDetId = (\<lambda>layer ladder module.
        0x12000000 OR push_bit 16 (layer AND 0xF) OR push_bit 8 (ladder AND 0xFF)
          OR push_bit 2 (module AND 0x3F)),
      pxfDetId = (\<lambda>side disk blade panel module.
        0x14000000 OR push_bit 23 (side AND 0x3) OR push_bit 16 (disk AND 0xF)
          OR push_bit 10 (blade AND 0x3F) OR push_bit 8 (panel AND 0x3)
          OR push_bit 2 (module AND 0x3F))\<rparr>"

definition sampleTopology1 :: TrackerTopology where
  "sampleTopology1 =
     \<lparr>pxbDetId = (\<lambda>layer ladder module.
        0x12000000 OR push_bit 20 (layer AND 0xF) OR push_bit 12 (ladder AND 0xFF)
          OR push_bit 2 (module AND 0x3FF)),
      pxfDetId = (\<lambda>side disk blade panel module.
        0x14000000 OR push_bit 23 (side AND 0x3) OR push_bit 18 (disk AND 0xF)
          OR push_bit 12 (blade AND 0x3F) OR push_bit 10 (panel AND 0x3)
          OR push_bit 2 (module AND 0xFF))\<rparr>"

definition sampleXMLFile :: "string \<Rightarrow> TrackerTopology" where
  "sampleXMLFile file = (if file = inputFile phase_zero then sampleTopology0 else sampleTopology1)"

subsection \<open>Paginating the canvas (\<^verbatim>\<open>getClosestFactors\<close>)\<close>

text \<open>
  The argument and the local variables are of the C++ type \<^verbatim>\<open>int\<close> (32 bits, two's
  complement). They are integers here, and every operation whose result is not defined in
  C++ is a branch of the model that returns a fault: division by zero, signed overflow,
  and the conversion of a NaN to \<^verbatim>\<open>int\<close>. The function contains no \<^verbatim>\<open>throw\<close>;
  \<open>InvalidArgument\<close> is the error that the specification names, and no branch returns it.
\<close>

datatype fault = InvalidArgument | DivisionByZero | SignedOverflow | NanToInt

definition INT_MAX :: int where "INT_MAX = 2147483647"
definition INT_MIN :: int where "INT_MIN = - 2147483648"

text \<open>Division and remainder of C++ truncate towards zero.\<close>

definition c_quot :: "int \<Rightarrow> int \<Rightarrow> int" where
  "c_quot a b = sgn a * sgn b * (\<bar>a\<bar> div \<bar>b\<bar>)"

definition c_rem :: "int \<Rightarrow> int \<Rightarrow> int" where
  "c_rem a b = a - b * c_quot a b"

text \<open>
  \<^verbatim>\<open>(int)sqrt(input)\<close> for a non-negative \<^verbatim>\<open>input\<close>: the square root in double
  precision, truncated. For the non-negative values of a 32-bit \<^verbatim>\<open>int\<close> this is the
  integer part of the exact square root, computed here by counting up.
\<close>

function sqrt_from :: "int \<Rightarrow> int \<Rightarrow> int" where
  "sqrt_from n k = (if 0 \<le> k \<and> (k + 1) * (k + 1) \<le> n then sqrt_from n (k + 1) else k)"
  by pat_completeness auto
termination
proof (relation "measure (\<lambda>(n, k). nat (n - k))")
  show "wf (measure (\<lambda>(n, k). nat (n - k)))" by simp
next
  fix n k :: int
  assume a: "0 \<le> k \<and> (k + 1) * (k + 1) \<le> n"
  then have "k + 1 \<le> (k + 1) * (k + 1)"
    by (simp add: mult_le_cancel_left1)
  with a have "k < n" by linarith
  then show "((n, k + 1), (n, k)) \<in> measure (\<lambda>(n, k). nat (n - k))" by simp
qed

declare sqrt_from.simps [simp del]

definition floor_sqrt :: "int \<Rightarrow> int" where
  "floor_sqrt n = sqrt_from n 0"

text \<open>
  The \<^verbatim>\<open>while\<close> loop of lines 727 to 729. The result is the value of \<^verbatim>\<open>testNum\<close> when
  the loop is left.
\<close>

function divisorLoop :: "int \<Rightarrow> int \<Rightarrow> fault + int" where
  "divisorLoop input testNum =
     (if testNum = 0 then Inl DivisionByZero
      else if c_rem input testNum \<noteq> 0 then
        (if testNum - 1 < INT_MIN then Inl SignedOverflow
         else divisorLoop input (testNum - 1))
      else Inr testNum)"
  by pat_completeness auto
termination
  by (relation "measure (\<lambda>(input, testNum). nat (testNum - INT_MIN))") auto

declare divisorLoop.simps [simp del]

text \<open>Lines 722 to 724: an odd argument greater than 1 is incremented.\<close>

definition evenCover :: "int \<Rightarrow> fault + int" where
  "evenCover input =
     (if c_rem input 2 \<noteq> 0 \<and> input > 1 then
        (if input + 1 > INT_MAX then Inl SignedOverflow else Inr (input + 1))
      else Inr input)"

definition getClosestFactors :: "int \<Rightarrow> fault + (int \<times> int)" where
  "getClosestFactors input0 =
     (case evenCover input0 of
        Inl e \<Rightarrow> Inl e
      | Inr input \<Rightarrow>
          if input < 0 then Inl NanToInt
          else
            (case divisorLoop input (floor_sqrt input) of
               Inl e \<Rightarrow> Inl e
             | Inr testNum \<Rightarrow> Inr (testNum, c_quot input testNum)))"

section \<open>Properties\<close>

subsection \<open>Identifier codec\<close>

lemma region_split:
  "(key AND NOT m) OR push_bit s (drop_bit s (key AND m)) = (key :: u32)"
  if "take_bit s m = 0"
proof -
  have "take_bit s (key AND m) = 0"
    using that by (simp add: take_bit_and)
  then have "push_bit s (drop_bit s (key AND m)) = key AND m"
    by (metis add.right_neutral bits_ident)
  then show ?thesis
    by (simp add: bit_eq_iff bit_or_iff bit_and_iff bit_not_iff) blast
qed

lemma take_bit_rocMaskAt: "take_bit s (rocMaskAt s) = 0"
  by (simp add: rocMaskAt_def take_bit_push_bit)

lemma roc_roundtrip: "rawidAt s key OR push_bit s (rocIdAt s key) = key"
  unfolding rawidAt_def rocIdAt_def by (rule region_split [OF take_bit_rocMaskAt])

text \<open>
  C4. Decoding a key into module identifier and region index loses nothing: for the barrel
  shift 6, for the endcap shift 3, and for the shift that the key's own subdetector
  selects, or-ing the module identifier with the region index shifted back gives the key.
  The decoder is a total function, so every key has exactly one decoding.
\<close>

theorem extractRegion_roundtrip:
  "rawidAt BPixRocIdShift key OR push_bit BPixRocIdShift (rocIdAt BPixRocIdShift key) = key
   \<and> rawidAt FPixRocIdShift key OR push_bit FPixRocIdShift (rocIdAt FPixRocIdShift key) = key
   \<and> rocShift key \<in> {BPixRocIdShift, FPixRocIdShift}
   \<and> fst (extractRegion key) OR push_bit (rocShift key) (snd (extractRegion key)) = key
   \<and> (\<exists>!p. extractRegion key = p)"
  by (simp add: extractRegion_def Let_def roc_roundtrip) (simp add: rocShift_def)

subsection \<open>Region unpacking\<close>

lemma pbrf_entry_eq:
  "pbrf_entry f e =
     Some (f(moduleOf e \<mapsto> appended (recordAt f (moduleOf e)) (if regionOf e \<noteq> 0 then [e] else [])))"
  by (cases e) (auto simp add: pbrf_entry_def extractRegion_def at_modify_def Let_def moduleOf_def
      regionOf_def appended_def recordAt_def emptyFraction_def split: option.splits)

lemma appended_Nil: "appended p [] = p"
  by (simp add: appended_def)

lemma appended_append: "appended (appended p xs) ys = appended p (xs @ ys)"
  by (simp add: appended_def)

lemma pbrf_loop_eq:
  "pbrf_loop f es =
     Some (\<lambda>rawid. if rawid \<in> moduleOf ` set es \<or> f rawid \<noteq> None
                    then Some (appended (recordAt f rawid) (regionEntries rawid es)) else None)"
proof (induction es arbitrary: f)
  case Nil
  show ?case
    by (auto simp add: regionEntries_def appended_Nil recordAt_def split: option.splits)
next
  case (Cons e es)
  let ?f' = "f(moduleOf e \<mapsto> appended (recordAt f (moduleOf e)) (if regionOf e \<noteq> 0 then [e] else []))"
  have "pbrf_loop f (e # es) = pbrf_loop ?f' es"
    by (simp add: pbrf_entry_eq)
  also have "\<dots> = Some (\<lambda>rawid. if rawid \<in> moduleOf ` set es \<or> ?f' rawid \<noteq> None
                    then Some (appended (recordAt ?f' rawid) (regionEntries rawid es)) else None)"
    by (rule Cons.IH)
  also have "\<dots> = Some (\<lambda>rawid. if rawid \<in> moduleOf ` set (e # es) \<or> f rawid \<noteq> None
                    then Some (appended (recordAt f rawid) (regionEntries rawid (e # es))) else None)"
    by (auto simp add: fun_eq_iff recordAt_def regionEntries_def appended_append appended_Nil)
  finally show ?case .
qed

lemma rocIdAt_le: "s = BPixRocIdShift \<or> s = FPixRocIdShift \<Longrightarrow> rocIdAt s k \<le> 31"
proof -
  assume "s = BPixRocIdShift \<or> s = FPixRocIdShift"
  then have "rocIdAt s k = drop_bit s k AND 31"
    by (auto simp add: rocIdAt_def rocMaskAt_def rocIdMaskBits_def BPixRocIdShift_def
        FPixRocIdShift_def)
  then show ?thesis
    by (simp add: word_and_le1)
qed

lemma regionOf_le: "regionOf e \<le> 31"
  by (simp add: regionOf_def extractRegion_def Let_def rocShift_def rocIdAt_le)

lemma region_number_range:
  assumes "regionOf e \<noteq> 0"
  shows "0 \<le> sint (regionOf e - 1) \<and> sint (regionOf e - 1) \<le> 30"
proof -
  have le: "regionOf e \<le> 31" by (rule regionOf_le)
  then have "uint (regionOf e) \<le> 31"
    by (simp add: word_le_def)
  moreover have "uint (regionOf e) \<noteq> 0"
    using assms by (simp add: uint_0_iff)
  moreover have "0 \<le> uint (regionOf e)" by simp
  ultimately have "1 \<le> uint (regionOf e)" "uint (regionOf e) \<le> 31" by linarith+
  then have u: "uint (regionOf e - 1) = uint (regionOf e) - 1"
    by (simp add: uint_word_ariths uint_sub_if')
  have "uint (regionOf e - 1) < 2 ^ 31"
    using u \<open>uint (regionOf e) \<le> 31\<close> by simp
  moreover have "- (2 ^ 31) \<le> uint (regionOf e - 1)"
    by (rule order_trans [of _ 0]) simp_all
  ultimately have "sint (regionOf e - 1) = uint (regionOf e - 1)"
    unfolding sint_uint by (simp add: signed_take_bit_int_eq_self_iff)
  with u \<open>1 \<le> uint (regionOf e)\<close> \<open>uint (regionOf e) \<le> 31\<close> show ?thesis by simp
qed

text \<open>
  C6. For every input map, \<^verbatim>\<open>pbrf\<close> returns (it never throws), the keys of the result are
  exactly the module identifiers decoded from the input keys (also for a module whose
  entries all have raw region 0), and in every record the two sequences have the same
  length: they list, in input order, the raw region minus one and one minus the factor of
  exactly the module's entries with a non-zero raw region. An emitted region number lies
  between 0 and 30, so an entry with raw region 0 emits nothing.
\<close>

theorem pbrf_modules:
  "\<exists>f. pbrf m = Some f
     \<and> dom f = moduleOf ` set m
     \<and> (\<forall>rawid p. f rawid = Some p \<longrightarrow>
           length (badRocNumber p) = length (badRocFrac p)
         \<and> badRocNumber p = map (\<lambda>e. sint (regionOf e - 1)) (regionEntries rawid m)
         \<and> badRocFrac p = map (\<lambda>e. 1 - snd e) (regionEntries rawid m)
         \<and> (\<forall>n \<in> set (badRocNumber p). 0 \<le> n \<and> n \<le> 30))"
proof -
  let ?f = "\<lambda>rawid. if rawid \<in> moduleOf ` set m
                    then Some (appended emptyFraction (regionEntries rawid m)) else None"
  have "recordAt Map.empty rawid = emptyFraction" for rawid
    by (simp add: recordAt_def)
  then have run: "pbrf m = Some ?f"
    by (simp add: pbrf_def pbrf_loop_eq cong: if_cong)
  have keys: "dom ?f = moduleOf ` set m"
    by (auto simp add: dom_def)
  have recs: "length (badRocNumber p) = length (badRocFrac p)
         \<and> badRocNumber p = map (\<lambda>e. sint (regionOf e - 1)) (regionEntries rawid m)
         \<and> badRocFrac p = map (\<lambda>e. 1 - snd e) (regionEntries rawid m)
         \<and> (\<forall>n \<in> set (badRocNumber p). 0 \<le> n \<and> n \<le> 30)"
    if "?f rawid = Some p" for rawid p
  proof -
    from that have p: "p = appended emptyFraction (regionEntries rawid m)"
      by (simp split: if_splits)
    have "\<forall>e \<in> set (regionEntries rawid m). regionOf e \<noteq> 0"
      by (simp add: regionEntries_def)
    then have "\<forall>n \<in> set (badRocNumber p). 0 \<le> n \<and> n \<le> 30"
      unfolding p by (auto simp add: appended_def emptyFraction_def region_number_range)
    then show ?thesis
      unfolding p by (simp add: appended_def emptyFraction_def)
  qed
  from run keys recs show ?thesis by blast
qed

theorem pbrf_modules_witness:
  "\<exists>f p q. pbrf [(0x12000000, 9/10), (0x120000C0, 1/2), (0x14000008, 1/4)] = Some f
     \<and> dom f = {0x12000000, 0x14000000}
     \<and> f 0x12000000 = Some p \<and> badRocNumber p = [2] \<and> badRocFrac p = [1/2]
     \<and> f 0x14000000 = Some q \<and> badRocNumber q = [0] \<and> badRocFrac q = [3/4]
     \<and> length (badRocNumber p) = length (badRocFrac p)"
proof -
  let ?m = "[(0x12000000, 9/10), (0x120000C0, 1/2), (0x14000008, 1/4)] :: (u32 \<times> real) list"
  have sd: "subdetId 0x12000000 = 1" "subdetId 0x120000C0 = 1" "subdetId 0x14000008 = 2"
    by (simp_all add: subdetId_def kSubdetOffset_def kSubdetMask_def)
  have ex: "extractRegion 0x12000000 = (0x12000000, 0)" "extractRegion 0x120000C0 = (0x12000000, 3)"
    "extractRegion 0x14000008 = (0x14000000, 1)"
    by (simp_all add: extractRegion_def Let_def rocShift_def sd PixelBarrel_def rawidAt_def
        rocIdAt_def rocMaskAt_def rocIdMaskBits_def BPixRocIdShift_def FPixRocIdShift_def)
  have mods: "moduleOf ` set ?m = {0x12000000, 0x14000000}"
    by (simp add: moduleOf_def ex)
  have r1: "regionEntries 0x12000000 ?m = [(0x120000C0, 1/2)]"
    and r2: "regionEntries 0x14000000 ?m = [(0x14000008, 1/4)]"
    by (simp_all add: regionEntries_def moduleOf_def regionOf_def ex)
  from pbrf_modules [of ?m] obtain f where f: "pbrf ?m = Some f
     \<and> dom f = moduleOf ` set ?m
     \<and> (\<forall>rawid p. f rawid = Some p \<longrightarrow>
           length (badRocNumber p) = length (badRocFrac p)
         \<and> badRocNumber p = map (\<lambda>e. sint (regionOf e - 1)) (regionEntries rawid ?m)
         \<and> badRocFrac p = map (\<lambda>e. 1 - snd e) (regionEntries rawid ?m)
         \<and> (\<forall>n \<in> set (badRocNumber p). 0 \<le> n \<and> n \<le> 30))" ..
  from f have run: "pbrf ?m = Some f" and keys: "dom f = moduleOf ` set ?m"
    by (rule conjunct1, rule conjunct2 [THEN conjunct1])
  note recs = f [THEN conjunct2, THEN conjunct2, rule_format]
  from keys mods obtain p q where p: "f 0x12000000 = Some p" and q: "f 0x14000000 = Some q"
  proof -
    have "0x12000000 \<in> dom f" "0x14000000 \<in> dom f"
      unfolding keys mods by simp_all
    then show ?thesis using that by (auto simp add: dom_def)
  qed
  from recs [OF p] recs [OF q] have
    "badRocNumber p = [2]" "badRocFrac p = [1/2]" "badRocNumber q = [0]" "badRocFrac q = [3/4]"
    by (simp_all add: r1 r2 regionOf_def ex)
  moreover note run p q
  moreover have "dom f = {0x12000000, 0x14000000}" using keys mods by simp
  ultimately show ?thesis by simp
qed

lemma rocShift_cases: "rocShift k = BPixRocIdShift \<or> rocShift k = FPixRocIdShift"
  by (simp add: rocShift_def)

lemma subdetId_with_region:
  "s = BPixRocIdShift \<or> s = FPixRocIdShift \<Longrightarrow> subdetId (k OR push_bit s 3) = subdetId k"
  by (auto simp add: subdetId_def kSubdetOffset_def BPixRocIdShift_def FPixRocIdShift_def drop_bit_or)

lemma and_not_self: "k AND m = 0 \<Longrightarrow> k AND NOT m = (k :: u32)"
  by (simp add: bit_eq_iff bit_and_iff bit_not_iff) blast

lemma module_with_region:
  assumes s: "s = BPixRocIdShift \<or> s = FPixRocIdShift" and k: "rawidAt s k = k"
  shows "rawidAt s (k OR push_bit s 3) = k" and "rocIdAt s (k OR push_bit s 3) = 3" and "rocIdAt s k = 0"
proof -
  have km: "k AND rocMaskAt s = 0"
  proof -
    have "k AND rocMaskAt s = (k AND NOT (rocMaskAt s)) AND rocMaskAt s"
      using k by (simp add: rawidAt_def)
    then show ?thesis by (simp add: and.assoc)
  qed
  have c1: "push_bit s 3 AND NOT (rocMaskAt s) = 0" and c2: "drop_bit s (push_bit s 3 AND rocMaskAt s) = 3"
    using s by (auto simp add: rocMaskAt_def rocIdMaskBits_def BPixRocIdShift_def FPixRocIdShift_def)
  show "rawidAt s (k OR push_bit s 3) = k"
    using k c1 by (simp add: rawidAt_def bit.conj_disj_distrib2)
  show "rocIdAt s (k OR push_bit s 3) = 3"
    using km c2 by (simp add: rocIdAt_def bit.conj_disj_distrib2)
  show "rocIdAt s k = 0"
    using km by (simp add: rocIdAt_def)
qed

text \<open>
  C5. For a module identifier \<open>moduleA\<close> (an identifier that decodes to itself), the map
  with the two entries \<open>moduleA\<close> with raw region 0 and factor 0.9, and \<open>moduleA\<close> with raw
  region 3 and factor 0.5, is unpacked into a result with the single key \<open>moduleA\<close>, whose
  record holds the single region number 2 with the single fraction 0.5.
\<close>

theorem pbrf_two_entries:
  assumes "fst (extractRegion moduleA) = moduleA"
  shows "pbrf [(moduleA, 9/10), (moduleA OR push_bit (rocShift moduleA) 3, 1/2)]
           = Some [moduleA \<mapsto> \<lparr>badRocNumber = [2], badRocFrac = [1/2]\<rparr>]"
proof -
  let ?s = "rocShift moduleA"
  let ?k3 = "moduleA OR push_bit ?s 3"
  have s: "?s = BPixRocIdShift \<or> ?s = FPixRocIdShift" by (rule rocShift_cases)
  have k: "rawidAt ?s moduleA = moduleA"
    using assms by (simp add: extractRegion_def Let_def)
  have s3: "rocShift ?k3 = ?s"
    using subdetId_with_region [OF s, of moduleA] by (simp add: rocShift_def)
  note parts = module_with_region [OF s k]
  have e0: "moduleOf (moduleA, 9/10) = moduleA" "regionOf (moduleA, 9/10) = 0"
    using parts k by (simp_all add: moduleOf_def regionOf_def extractRegion_def Let_def)
  have e3: "moduleOf (?k3, 1/2) = moduleA" "regionOf (?k3, 1/2) = 3"
    using parts s3 by (simp_all add: moduleOf_def regionOf_def extractRegion_def Let_def)
  show ?thesis
    by (simp add: pbrf_def pbrf_entry_eq e0 e3 appended_def recordAt_def emptyFraction_def)
qed

theorem pbrf_two_entries_witness:
  "fst (extractRegion 0x12000000) = 0x12000000
   \<and> pbrf [(0x12000000, 9/10), (0x120000C0, 1/2)]
       = Some [0x12000000 \<mapsto> \<lparr>badRocNumber = [2], badRocFrac = [1/2]\<rparr>]"
proof -
  have sd: "subdetId 0x12000000 = PixelBarrel"
    by (simp add: subdetId_def kSubdetOffset_def kSubdetMask_def PixelBarrel_def)
  have h: "fst (extractRegion 0x12000000) = 0x12000000"
    by (simp add: extractRegion_def Let_def rocShift_def sd rawidAt_def rocMaskAt_def
        rocIdMaskBits_def BPixRocIdShift_def)
  have "0x12000000 OR push_bit (rocShift 0x12000000) 3 = (0x120000C0 :: u32)"
    by (simp add: rocShift_def sd BPixRocIdShift_def)
  with pbrf_two_entries [OF h] h show ?thesis by simp
qed

subsection \<open>Hierarchy matcher\<close>

lemma maskLoop_end:
  "i \<le> length ms \<Longrightarrow>
     maskLoop d k ms i = length ms \<longleftrightarrow> (\<forall>j. i \<le> j \<and> j < length ms \<longrightarrow> maskAccepts d k (ms ! j))"
proof (induction d k ms i rule: maskLoop.induct)
  case (1 d k ms i)
  show ?case
  proof (cases "i < length ms")
    case False
    with "1.prems" show ?thesis by (auto simp add: maskLoop.simps)
  next
    case True
    show ?thesis
    proof (cases "maskAccepts d k (ms ! i)")
      case False
      then have "maskLoop d k ms i = i"
        using True by (subst maskLoop.simps) (auto simp add: Let_def maskAccepts_def)
      with True False show ?thesis by auto
    next
      case acc: True
      then have step: "maskLoop d k ms i = maskLoop d k ms (i + 1)"
        using True by (subst maskLoop.simps) (auto simp add: Let_def maskAccepts_def)
      have "maskLoop d k ms (i + 1) = length ms \<longleftrightarrow>
          (\<forall>j. i + 1 \<le> j \<and> j < length ms \<longrightarrow> maskAccepts d k (ms ! j))"
      proof (cases "subdetId (ms ! i) \<noteq> subdetId k")
        case True
        with \<open>i < length ms\<close> show ?thesis using "1.IH"(1) [of "ms ! i"] by simp
      next
        case False
        with \<open>i < length ms\<close> acc show ?thesis using "1.IH"(2) [of "ms ! i"]
          by (simp add: maskAccepts_def)
      qed
      moreover have "(\<forall>j. i \<le> j \<and> j < length ms \<longrightarrow> maskAccepts d k (ms ! j))
        \<longleftrightarrow> (\<forall>j. i + 1 \<le> j \<and> j < length ms \<longrightarrow> maskAccepts d k (ms ! j))"
      proof (intro iffI allI impI)
        fix j
        assume "\<forall>j. i \<le> j \<and> j < length ms \<longrightarrow> maskAccepts d k (ms ! j)"
          and "i + 1 \<le> j \<and> j < length ms"
        then show "maskAccepts d k (ms ! j)" by simp
      next
        fix j
        assume rest: "\<forall>j. i + 1 \<le> j \<and> j < length ms \<longrightarrow> maskAccepts d k (ms ! j)"
          and j: "i \<le> j \<and> j < length ms"
        show "maskAccepts d k (ms ! j)"
        proof (cases "j = i")
          case True
          with acc show ?thesis by simp
        next
          case False
          with j have "i + 1 \<le> j \<and> j < length ms" by simp
          with rest show ?thesis by (elim allE [of _ j] impE)
        qed
      qed
      ultimately show ?thesis using step by simp
    qed
  qed
qed

lemma entryApplies_iff:
  "entryApplies d k ms \<longleftrightarrow> subdetId k = subdetId d \<and> (\<forall>m \<in> set ms. maskAccepts d k m)"
  by (simp add: entryApplies_def maskLoop_end all_set_conv_all_nth)

lemma geomfactor_entry_eq:
  "geomfactor_entry d ms acc e = (if entryApplies d (fst e) ms then acc * snd e else acc)"
  by (simp add: geomfactor_entry_def entryApplies_def Let_def)

lemma pufactors_entry_eq:
  "pufactors_entry d ms acc e = (if entryApplies d (fst e) ms then snd e else acc)"
  by (simp add: pufactors_entry_def entryApplies_def Let_def)

lemma geomfactor_foldl:
  "foldl (geomfactor_entry d ms) acc m
     = foldl (\<lambda>a v. a * v) acc (map snd (filter (\<lambda>e. entryApplies d (fst e) ms) m))"
  by (induction m arbitrary: acc) (simp_all add: geomfactor_entry_eq)

lemma pufactors_foldl:
  "foldl (pufactors_entry d ms) acc m
     = (let hits = filter (\<lambda>e. entryApplies d (fst e) ms) m
        in if hits = [] then acc else snd (last hits))"
proof (induction m rule: rev_induct)
  case Nil
  show ?case by simp
next
  case (snoc e m)
  then show ?case
    by (simp add: pufactors_entry_eq Let_def)
qed

text \<open>
  C2, as the code has it. An entry of either map takes effect iff the stored identifier
  has the subsystem tag of the target and, for every mask of the stored identifier's
  subsystem, the target and the stored identifier agree under the mask or the stored
  identifier under the mask equals the subsystem root identifier itself (the root is not
  masked). This is the test of both loop bodies; an entry of another subsystem never
  matches; masks of another subsystem than the stored entry are skipped. Where every
  relevant mask contains the bits of the root identifier, the test agrees with the
  predicate of the specification.
\<close>

theorem entryApplies_characterisation:
  "(entryApplies detid mapid masks \<longleftrightarrow>
      subdetId detid = subdetId mapid
      \<and> (\<forall>m \<in> set masks. subdetId m = subdetId mapid \<longrightarrow>
            (detid AND m) = (mapid AND m)
          \<or> (mapid AND m) = DetId2 (det mapid) (subdetId mapid)))
   \<and> geomfactor_entry detid masks acc (mapid, v)
       = (if entryApplies detid mapid masks then acc * v else acc)
   \<and> pufactors_entry detid masks vs (mapid, ws)
       = (if entryApplies detid mapid masks then ws else vs)
   \<and> (subdetId mapid \<noteq> subdetId detid \<longrightarrow> \<not> entryApplies detid mapid masks)
   \<and> entryApplies detid mapid masks
       = entryApplies detid mapid (filter (\<lambda>m. subdetId m = subdetId mapid) masks)
   \<and> ((\<forall>m \<in> set masks. subdetId m = subdetId mapid \<longrightarrow>
          DetId2 (det mapid) (subdetId mapid) AND m = DetId2 (det mapid) (subdetId mapid))
        \<longrightarrow> entryApplies detid mapid masks = spec_matchPredicate detid mapid masks)"
proof (intro conjI)
  show "entryApplies detid mapid masks \<longleftrightarrow>
      subdetId detid = subdetId mapid
      \<and> (\<forall>m \<in> set masks. subdetId m = subdetId mapid \<longrightarrow>
            (detid AND m) = (mapid AND m)
          \<or> (mapid AND m) = DetId2 (det mapid) (subdetId mapid))"
    by (auto simp add: entryApplies_iff maskAccepts_def)
  show "geomfactor_entry detid masks acc (mapid, v)
       = (if entryApplies detid mapid masks then acc * v else acc)"
    by (simp add: geomfactor_entry_eq)
  show "pufactors_entry detid masks vs (mapid, ws)
       = (if entryApplies detid mapid masks then ws else vs)"
    by (simp add: pufactors_entry_eq)
  show "subdetId mapid \<noteq> subdetId detid \<longrightarrow> \<not> entryApplies detid mapid masks"
    by (simp add: entryApplies_def)
  show "entryApplies detid mapid masks
       = entryApplies detid mapid (filter (\<lambda>m. subdetId m = subdetId mapid) masks)"
    by (auto simp add: entryApplies_iff maskAccepts_def)
  show "(\<forall>m \<in> set masks. subdetId m = subdetId mapid \<longrightarrow>
          DetId2 (det mapid) (subdetId mapid) AND m = DetId2 (det mapid) (subdetId mapid))
        \<longrightarrow> entryApplies detid mapid masks = spec_matchPredicate detid mapid masks"
    by (auto simp add: entryApplies_iff maskAccepts_def spec_matchPredicate_def)
qed

lemmas id_simps = subdetId_def det_def DetId2_def kSubdetOffset_def kSubdetMask_def
  kDetOffset_def kDetMask_def

lemmas double_simps = times_double_def one_double_def round_to_double_def round_half_even_def
  bit_length.simps Let_def double_0_9_def double_0_8_def double_0_72_def double_2_def

text \<open>
  The predicate of the specification compares with the masked root identifier. For a
  stored identifier whose detector bits are not all contained in the mask the two differ:
  the specification's predicate holds, while the code skips the entry.
\<close>

theorem spec_matchPredicate_counterexample:
  "spec_matchPredicate 0x22000000 0x32000000 [0x12000000]
   \<and> \<not> entryApplies 0x22000000 0x32000000 [0x12000000]
   \<and> getMatchingGeomFactor 0x22000000 [(0x32000000, double_2)] [0x12000000] = 1
   \<and> getMatchingPUFactors 0x22000000 [(0x32000000, [2])] [0x12000000] = []"
proof -
  have a: "\<not> entryApplies 0x22000000 0x32000000 [0x12000000]"
    by (simp add: entryApplies_iff maskAccepts_def id_simps)
  have b: "spec_matchPredicate 0x22000000 0x32000000 [0x12000000]"
    by (simp add: spec_matchPredicate_def id_simps)
  show ?thesis
    using a b
    by (simp add: getMatchingGeomFactor_def getMatchingPUFactors_def geomfactor_entry_eq
        pufactors_entry_eq)
qed

lemma sample_applies:
  "entryApplies 0x12101004 0x12000000 phase1_masks"
  "entryApplies 0x12101004 0x12100000 phase1_masks"
  "\<not> entryApplies 0x12101004 0x12200000 phase1_masks"
  "\<not> entryApplies 0x12101004 0x14000000 phase1_masks"
  by (simp_all add: entryApplies_iff maskAccepts_def id_simps phase1_masks_def)

theorem entryApplies_characterisation_witness:
  "entryApplies 0x12101004 0x12100000 phase1_masks
   \<and> spec_matchPredicate 0x12101004 0x12100000 phase1_masks
   \<and> geomfactor_entry 0x12101004 phase1_masks 1 (0x12100000, double_2) = double_2
   \<and> pufactors_entry 0x12101004 phase1_masks [] (0x12100000, [2]) = [2]
   \<and> subdetId 0x14000000 \<noteq> subdetId 0x12101004
   \<and> \<not> entryApplies 0x12101004 0x14000000 phase1_masks"
proof -
  note c = entryApplies_characterisation
    [of "0x12101004" "0x12100000" phase1_masks 1 double_2 "[]" "[2]"]
  note c_iff = c [THEN conjunct1]
  note c_geom = c [THEN conjunct2, THEN conjunct1]
  note c_pu = c [THEN conjunct2, THEN conjunct2, THEN conjunct1]
  note c_spec = c [THEN conjunct2, THEN conjunct2, THEN conjunct2, THEN conjunct2, THEN conjunct2]
  have rhs: "subdetId 0x12101004 = subdetId 0x12100000
      \<and> (\<forall>m \<in> set phase1_masks. subdetId m = subdetId 0x12100000 \<longrightarrow>
            (0x12101004 AND m) = (0x12100000 AND m)
          \<or> (0x12100000 AND m) = DetId2 (det 0x12100000) (subdetId 0x12100000))"
    by (simp add: id_simps phase1_masks_def)
  have roots: "\<forall>m \<in> set phase1_masks. subdetId m = subdetId 0x12100000 \<longrightarrow>
          DetId2 (det 0x12100000) (subdetId 0x12100000) AND m
            = DetId2 (det 0x12100000) (subdetId 0x12100000)"
    by (simp add: id_simps phase1_masks_def)
  from rhs have a: "entryApplies 0x12101004 0x12100000 phase1_masks"
    by (rule c_iff [THEN iffD2])
  from c_spec [THEN mp, OF roots] a
  have s: "spec_matchPredicate 0x12101004 0x12100000 phase1_masks" by simp
  from c_geom a
  have g: "geomfactor_entry 0x12101004 phase1_masks 1 (0x12100000, double_2) = double_2"
    by (simp add: double_simps)
  from c_pu a have p: "pufactors_entry 0x12101004 phase1_masks [] (0x12100000, [2]) = [2]"
    by simp
  have d: "subdetId 0x14000000 \<noteq> subdetId 0x12101004"
    by (simp add: id_simps)
  note e = entryApplies_characterisation
    [of "0x12101004" "0x14000000" phase1_masks 1 double_2 "[]" "[2]"]
  from e [THEN conjunct2, THEN conjunct2, THEN conjunct2, THEN conjunct1, THEN mp, OF d]
  have n: "\<not> entryApplies 0x12101004 0x14000000 phase1_masks" .
  from a s g p d n show ?thesis by (intro conjI)
qed

text \<open>
  C1, as the code has it. \<^verbatim>\<open>getMatchingGeomFactor\<close> returns the product in double
  arithmetic, accumulated from 1.0 in the order of the map, of the values of exactly the
  entries whose identifier has the subsystem tag of the target and, under every mask of
  its own subsystem, agrees with the target or equals its subsystem root identifier; every
  other entry is left out. For an empty map it returns 1.0. For two matching entries with
  the values 0.9 and 0.8 it returns their rounded product \<^verbatim>\<open>0x1.70a3d70a3d70bp-1\<close>
  (0.7200000000000001).
\<close>

theorem getMatchingGeomFactor_product:
  "getMatchingGeomFactor detid m masks
     = foldl (\<lambda>acc v. acc * v) 1
         (map snd (filter (\<lambda>e. subdetId (fst e) = subdetId detid
             \<and> (\<forall>k \<in> set masks. subdetId k = subdetId (fst e) \<longrightarrow>
                   (detid AND k) = (fst e AND k)
                 \<or> (fst e AND k) = DetId2 (det (fst e)) (subdetId (fst e)))) m))
   \<and> getMatchingGeomFactor detid [] masks = 1
   \<and> ((subdetId k1 = subdetId detid
         \<and> (\<forall>k \<in> set masks. subdetId k = subdetId k1 \<longrightarrow>
               (detid AND k) = (k1 AND k) \<or> (k1 AND k) = DetId2 (det k1) (subdetId k1)))
       \<and> (subdetId k2 = subdetId detid
         \<and> (\<forall>k \<in> set masks. subdetId k = subdetId k2 \<longrightarrow>
               (detid AND k) = (k2 AND k) \<or> (k2 AND k) = DetId2 (det k2) (subdetId k2)))
       \<longrightarrow> getMatchingGeomFactor detid [(k1, double_0_9), (k2, double_0_8)] masks
             = Finite False 0x170A3D70A3D70B (- 53))"
proof -
  have test: "entryApplies detid k masks \<longleftrightarrow>
      subdetId k = subdetId detid
      \<and> (\<forall>j \<in> set masks. subdetId j = subdetId k \<longrightarrow>
            (detid AND j) = (k AND j) \<or> (k AND j) = DetId2 (det k) (subdetId k))" for k
    by (simp add: entryApplies_iff maskAccepts_def)
  have fold: "getMatchingGeomFactor detid m masks
     = foldl (\<lambda>acc v. acc * v) 1 (map snd (filter (\<lambda>e. entryApplies detid (fst e) masks) m))"
    for m
    by (simp add: getMatchingGeomFactor_def geomfactor_foldl)
  have first: "getMatchingGeomFactor detid m masks
     = foldl (\<lambda>acc v. acc * v) 1
         (map snd (filter (\<lambda>e. subdetId (fst e) = subdetId detid
             \<and> (\<forall>k \<in> set masks. subdetId k = subdetId (fst e) \<longrightarrow>
                   (detid AND k) = (fst e AND k)
                 \<or> (fst e AND k) = DetId2 (det (fst e)) (subdetId (fst e)))) m))"
    unfolding fold test ..
  have second: "getMatchingGeomFactor detid [] masks = 1"
    by (simp add: fold)
  have product: "1 * double_0_9 * double_0_8 = Finite False 0x170A3D70A3D70B (- 53)"
    by (simp add: double_simps)
  have third: "getMatchingGeomFactor detid [(k1, double_0_9), (k2, double_0_8)] masks
             = Finite False 0x170A3D70A3D70B (- 53)"
    if "entryApplies detid k1 masks" and "entryApplies detid k2 masks"
    using that product by (simp add: fold)
  from first second third show ?thesis
    unfolding test by blast
qed

theorem getMatchingGeomFactor_product_witness:
  "getMatchingGeomFactor 0x12101004
      [(0x12000000, double_0_9), (0x12100000, double_0_8)] phase1_masks
     = Finite False 0x170A3D70A3D70B (- 53)
   \<and> getMatchingGeomFactor 0x12101004
      [(0x12000000, double_0_9), (0x12100000, double_0_8), (0x12200000, double_2)] phase1_masks
     = Finite False 0x170A3D70A3D70B (- 53)
   \<and> getMatchingGeomFactor 0x14000000
      [(0x12000000, double_0_9), (0x12100000, double_0_8), (0x12200000, double_2)] phase1_masks
     = 1"
proof -
  let ?m3 = "[(0x12000000, double_0_9), (0x12100000, double_0_8), (0x12200000, double_2)]"
  have both: "(subdetId 0x12000000 = subdetId 0x12101004
         \<and> (\<forall>k \<in> set phase1_masks. subdetId k = subdetId 0x12000000 \<longrightarrow>
               (0x12101004 AND k) = (0x12000000 AND k)
             \<or> (0x12000000 AND k) = DetId2 (det 0x12000000) (subdetId 0x12000000)))
       \<and> (subdetId 0x12100000 = subdetId 0x12101004
         \<and> (\<forall>k \<in> set phase1_masks. subdetId k = subdetId 0x12100000 \<longrightarrow>
               (0x12101004 AND k) = (0x12100000 AND k)
             \<or> (0x12100000 AND k) = DetId2 (det 0x12100000) (subdetId 0x12100000)))"
    by (simp add: id_simps phase1_masks_def)
  note t = getMatchingGeomFactor_product
    [of "0x12101004" ?m3 phase1_masks "0x12000000" "0x12100000"]
  from t [THEN conjunct2, THEN conjunct2, THEN mp, OF both]
  have a: "getMatchingGeomFactor 0x12101004
      [(0x12000000, double_0_9), (0x12100000, double_0_8)] phase1_masks
     = Finite False 0x170A3D70A3D70B (- 53)" .
  have hits: "filter (\<lambda>e. subdetId (fst e) = subdetId 0x12101004
             \<and> (\<forall>k \<in> set phase1_masks. subdetId k = subdetId (fst e) \<longrightarrow>
                   (0x12101004 AND k) = (fst e AND k)
                 \<or> (fst e AND k) = DetId2 (det (fst e)) (subdetId (fst e)))) ?m3
          = [(0x12000000, double_0_9), (0x12100000, double_0_8)]"
    by (simp add: id_simps phase1_masks_def)
  have b: "getMatchingGeomFactor 0x12101004 ?m3 phase1_masks
     = Finite False 0x170A3D70A3D70B (- 53)"
    unfolding t [THEN conjunct1] hits by (simp add: double_simps)
  have none: "filter (\<lambda>e. subdetId (fst e) = subdetId 0x14000000
             \<and> (\<forall>k \<in> set phase1_masks. subdetId k = subdetId (fst e) \<longrightarrow>
                   (0x14000000 AND k) = (fst e AND k)
                 \<or> (fst e AND k) = DetId2 (det (fst e)) (subdetId (fst e)))) ?m3 = []"
    by (simp add: id_simps)
  note u = getMatchingGeomFactor_product
    [of "0x14000000" ?m3 phase1_masks "0x12000000" "0x12100000"]
  have c: "getMatchingGeomFactor 0x14000000 ?m3 phase1_masks = 1"
    unfolding u [THEN conjunct1] none by simp
  from a b c show ?thesis by (intro conjI)
qed

text \<open>
  The product of the doubles 0.9 and 0.8 is not the double 0.72: it lies one unit in the
  last place above it. The three named doubles are the ones nearest to the decimal
  numbers, each within half a unit in the last place.
\<close>

theorem getMatchingGeomFactor_counterexample:
  "entryApplies 0x12101004 0x12000000 phase1_masks
   \<and> entryApplies 0x12101004 0x12100000 phase1_masks
   \<and> spec_matchPredicate 0x12101004 0x12000000 phase1_masks
   \<and> spec_matchPredicate 0x12101004 0x12100000 phase1_masks
   \<and> (case valof double_0_9 of Some x \<Rightarrow> \<bar>x - 9 / 10\<bar> < 1 / 2 ^ 54 | None \<Rightarrow> False)
   \<and> (case valof double_0_8 of Some x \<Rightarrow> \<bar>x - 8 / 10\<bar> < 1 / 2 ^ 54 | None \<Rightarrow> False)
   \<and> (case valof double_0_72 of Some x \<Rightarrow> \<bar>x - 72 / 100\<bar> < 1 / 2 ^ 54 | None \<Rightarrow> False)
   \<and> getMatchingGeomFactor 0x12101004
        [(0x12000000, double_0_9), (0x12100000, double_0_8)] phase1_masks
       = Finite False 0x170A3D70A3D70B (- 53)
   \<and> getMatchingGeomFactor 0x12101004
        [(0x12000000, double_0_9), (0x12100000, double_0_8)] phase1_masks
       \<noteq> double_0_72"
proof -
  have spec: "spec_matchPredicate 0x12101004 0x12000000 phase1_masks"
    "spec_matchPredicate 0x12101004 0x12100000 phase1_masks"
    by (simp_all add: spec_matchPredicate_def id_simps phase1_masks_def)
  have near: "(case valof double_0_9 of Some x \<Rightarrow> \<bar>x - 9 / 10\<bar> < 1 / 2 ^ 54 | None \<Rightarrow> False)"
    "(case valof double_0_8 of Some x \<Rightarrow> \<bar>x - 8 / 10\<bar> < 1 / 2 ^ 54 | None \<Rightarrow> False)"
    "(case valof double_0_72 of Some x \<Rightarrow> \<bar>x - 72 / 100\<bar> < 1 / 2 ^ 54 | None \<Rightarrow> False)"
    by (simp_all add: double_0_9_def double_0_8_def double_0_72_def)
  have product: "1 * double_0_9 * double_0_8 = Finite False 0x170A3D70A3D70B (- 53)"
    by (simp add: double_simps)
  have run: "getMatchingGeomFactor 0x12101004
        [(0x12000000, double_0_9), (0x12100000, double_0_8)] phase1_masks
       = Finite False 0x170A3D70A3D70B (- 53)"
    using product
    by (simp add: getMatchingGeomFactor_def geomfactor_entry_eq sample_applies)
  have differ: "Finite False 0x170A3D70A3D70B (- 53) \<noteq> double_0_72"
    by (simp add: double_0_72_def)
  from sample_applies(1,2) spec near run differ show ?thesis
    unfolding run by (intro conjI)
qed

text \<open>
  C3. \<^verbatim>\<open>getMatchingPUFactors\<close> returns the value sequence of the last matching entry in
  the order of the map: each matching entry replaces the running result, a non-matching
  one leaves it. It returns the empty sequence when no entry matches, in particular when
  no entry has the subsystem tag of the target.
\<close>

theorem getMatchingPUFactors_last_match:
  "getMatchingPUFactors detid m masks
     = (let hits = filter (\<lambda>e. entryApplies detid (fst e) masks) m
        in if hits = [] then [] else snd (last hits))
   \<and> getMatchingPUFactors detid (m @ [(mapid, ws)]) masks
     = (if entryApplies detid mapid masks then ws else getMatchingPUFactors detid m masks)
   \<and> ((\<forall>e \<in> set m. \<not> entryApplies detid (fst e) masks) \<longrightarrow>
        getMatchingPUFactors detid m masks = [])
   \<and> ((\<forall>e \<in> set m. subdetId (fst e) \<noteq> subdetId detid) \<longrightarrow>
        getMatchingPUFactors detid m masks = [])"
proof (intro conjI impI)
  show "getMatchingPUFactors detid m masks
     = (let hits = filter (\<lambda>e. entryApplies detid (fst e) masks) m
        in if hits = [] then [] else snd (last hits))"
    by (simp add: getMatchingPUFactors_def pufactors_foldl)
  show "getMatchingPUFactors detid (m @ [(mapid, ws)]) masks
     = (if entryApplies detid mapid masks then ws else getMatchingPUFactors detid m masks)"
    by (simp add: getMatchingPUFactors_def pufactors_entry_eq)
  show "getMatchingPUFactors detid m masks = []"
    if "\<forall>e \<in> set m. \<not> entryApplies detid (fst e) masks"
    using that by (simp add: getMatchingPUFactors_def pufactors_foldl filter_empty_conv)
  show "getMatchingPUFactors detid m masks = []"
    if "\<forall>e \<in> set m. subdetId (fst e) \<noteq> subdetId detid"
  proof -
    from that have "\<forall>e \<in> set m. \<not> entryApplies detid (fst e) masks"
      by (simp add: entryApplies_def)
    then show ?thesis
      by (simp add: getMatchingPUFactors_def pufactors_foldl filter_empty_conv)
  qed
qed

theorem getMatchingPUFactors_last_match_witness:
  "getMatchingPUFactors 0x12101004
      [(0x12000000, [1, 2]), (0x12100000, [3]), (0x12200000, [4])] phase1_masks = [3]
   \<and> getMatchingPUFactors 0x14000000
      [(0x12000000, [1, 2]), (0x12100000, [3]), (0x12200000, [4])] phase1_masks = []"
proof -
  let ?m = "[(0x12000000, [1, 2]), (0x12100000, [3]), (0x12200000, [4])] :: (u32 \<times> real list) list"
  have hits: "filter (\<lambda>e. entryApplies 0x12101004 (fst e) phase1_masks) ?m
          = [(0x12000000, [1, 2]), (0x12100000, [3])]"
    by (simp add: sample_applies)
  note t = getMatchingPUFactors_last_match [of "0x12101004" ?m phase1_masks 0 "[]"]
  have a: "getMatchingPUFactors 0x12101004 ?m phase1_masks = [3]"
    unfolding t [THEN conjunct1] hits by (simp add: Let_def)
  have other: "\<forall>e \<in> set ?m. subdetId (fst e) \<noteq> subdetId 0x14000000"
    by (simp add: id_simps)
  note u = getMatchingPUFactors_last_match [of "0x14000000" ?m phase1_masks 0 "[]"]
  from u [THEN conjunct2, THEN conjunct2, THEN conjunct2, THEN mp, OF other]
  have b: "getMatchingPUFactors 0x14000000 ?m phase1_masks = []" .
  from a b show ?thesis by (intro conjI)
qed

subsection \<open>Phase validation\<close>

lemma std_equal_iff: "length xs = length ys \<Longrightarrow> std_equal xs ys \<longleftrightarrow> xs = ys"
  by (induction xs ys rule: std_equal.induct) simp_all

lemma checkPhase_iff: "checkPhase xml ph masks_db \<longleftrightarrow> masks_db = masks_geom (xml (inputFile ph))"
  using std_equal_iff [of "masks_geom (xml (inputFile ph))" masks_db]
  by (auto simp add: checkPhase_def Let_def)

lemma length_masks_geom: "length (masks_geom tkTopo) = 8"
  by (simp add: masks_geom_def Let_def)

text \<open>
  C7. \<^verbatim>\<open>checkPhase\<close> returns true iff the supplied mask list has the length of the mask
  list built from the geometry of the phase and equals it position by position, that is,
  iff the two lists are equal. The list built for a phase passes the check for that phase,
  and the list built for another phase fails it whenever the two built lists differ.
\<close>

theorem checkPhase_strict_equality:
  "(checkPhase xml ph masks_db \<longleftrightarrow>
      length masks_db = length (masks_geom (xml (inputFile ph)))
      \<and> (\<forall>i < length masks_db. masks_db ! i = masks_geom (xml (inputFile ph)) ! i))
   \<and> (checkPhase xml ph masks_db \<longleftrightarrow> masks_db = masks_geom (xml (inputFile ph)))
   \<and> checkPhase xml ph (masks_geom (xml (inputFile ph)))
   \<and> (masks_geom (xml (inputFile ph')) \<noteq> masks_geom (xml (inputFile ph)) \<longrightarrow>
        \<not> checkPhase xml ph (masks_geom (xml (inputFile ph'))))"
  by (auto simp add: checkPhase_iff list_eq_iff_nth_eq)

lemma sample_masks:
  "masks_geom sampleTopology1 = phase1_masks"
  "masks_geom sampleTopology0 =
     [0x120F0000, 0x1200FF00, 0x120000FC, 0x15800000, 0x140F0000, 0x1400FC00, 0x14000300, 0x140000FC]"
  by (simp_all add: masks_geom_def sampleTopology1_def sampleTopology0_def phase1_masks_def
      mask_numeral)

lemma sample_files:
  "sampleXMLFile (inputFile phase_zero) = sampleTopology0"
  "sampleXMLFile (inputFile phase_one) = sampleTopology1"
  "sampleXMLFile (inputFile phase_two) = sampleTopology1"
  by (simp_all add: sampleXMLFile_def inputFile_def)

theorem checkPhase_strict_equality_witness:
  "checkPhase sampleXMLFile phase_one phase1_masks
   \<and> \<not> checkPhase sampleXMLFile phase_one (masks_geom sampleTopology0)
   \<and> \<not> checkPhase sampleXMLFile phase_one (take 3 phase1_masks)
   \<and> \<not> checkPhase sampleXMLFile phase_one (phase1_masks [2 := 0x12000FF0])"
proof -
  note t = checkPhase_strict_equality [of sampleXMLFile phase_one _ phase_zero]
  have differ: "masks_geom (sampleXMLFile (inputFile phase_zero))
      \<noteq> masks_geom (sampleXMLFile (inputFile phase_one))"
    by (simp add: sample_files sample_masks phase1_masks_def)
  have a: "checkPhase sampleXMLFile phase_one phase1_masks"
    using t [of phase1_masks, THEN conjunct2, THEN conjunct2, THEN conjunct1]
    by (simp add: sample_files sample_masks)
  have b: "\<not> checkPhase sampleXMLFile phase_one (masks_geom sampleTopology0)"
    using t [of phase1_masks, THEN conjunct2, THEN conjunct2, THEN conjunct2, THEN mp, OF differ]
    by (simp add: sample_files)
  have c: "\<not> checkPhase sampleXMLFile phase_one (take 3 phase1_masks)"
    unfolding t [of "take 3 phase1_masks", THEN conjunct1]
    by (simp add: sample_files sample_masks phase1_masks_def)
  have d: "\<not> checkPhase sampleXMLFile phase_one (phase1_masks [2 := 0x12000FF0])"
    unfolding t [of "phase1_masks [2 := 0x12000FF0]", THEN conjunct2, THEN conjunct1]
    by (simp add: sample_files sample_masks phase1_masks_def)
  from a b c d show ?thesis by (intro conjI)
qed

text \<open>
  C10. For every phase the mask list that \<^verbatim>\<open>checkPhase\<close> builds has exactly 8 elements,
  three barrel masks followed by five endcap masks in this order; so \<^verbatim>\<open>checkPhase\<close>
  returns false for every supplied list whose length is not 8.
\<close>

theorem checkPhase_eight_masks:
  "length (masks_geom (xml (inputFile ph))) = 8
   \<and> masks_geom tkTopo =
       [pxbDetId tkTopo (- 1) 0 0, pxbDetId tkTopo 0 (- 1) 0, pxbDetId tkTopo 0 0 (- 1),
        pxfDetId tkTopo (- 1) 0 0 0 0, pxfDetId tkTopo 0 (- 1) 0 0 0,
        pxfDetId tkTopo 0 0 (- 1) 0 0, pxfDetId tkTopo 0 0 0 (- 1) 0,
        pxfDetId tkTopo 0 0 0 0 (- 1)]
   \<and> (length masks_db \<noteq> 8 \<longrightarrow> \<not> checkPhase xml ph masks_db)"
  by (auto simp add: checkPhase_iff length_masks_geom) (simp add: masks_geom_def Let_def)

theorem checkPhase_eight_masks_witness:
  "length (take 3 phase1_masks) \<noteq> 8
   \<and> \<not> checkPhase sampleXMLFile phase_zero (take 3 phase1_masks)
   \<and> \<not> checkPhase sampleXMLFile phase_one (take 3 phase1_masks)
   \<and> \<not> checkPhase sampleXMLFile phase_two (phase1_masks @ [0])"
proof -
  have l: "length (take 3 phase1_masks) \<noteq> 8" and l': "length (phase1_masks @ [0]) \<noteq> 8"
    by (simp_all add: phase1_masks_def)
  note t = checkPhase_eight_masks [THEN conjunct2, THEN conjunct2, THEN mp]
  from l t [OF l, of sampleXMLFile phase_zero] t [OF l, of sampleXMLFile phase_one]
    t [OF l', of sampleXMLFile phase_two]
  show ?thesis by (intro conjI)
qed

subsection \<open>Grid layout\<close>

lemma sqrt_from_bounds:
  "0 \<le> k \<Longrightarrow> k * k \<le> n \<Longrightarrow>
     k \<le> sqrt_from n k \<and> sqrt_from n k * sqrt_from n k \<le> n
     \<and> n < (sqrt_from n k + 1) * (sqrt_from n k + 1)"
proof (induction n k rule: sqrt_from.induct)
  case (1 n k)
  show ?case
  proof (cases "(k + 1) * (k + 1) \<le> n")
    case True
    with "1.prems" have step: "sqrt_from n k = sqrt_from n (k + 1)"
      by (subst sqrt_from.simps) simp
    from True "1.prems" "1.IH" have
      "k + 1 \<le> sqrt_from n (k + 1) \<and> sqrt_from n (k + 1) * sqrt_from n (k + 1) \<le> n
       \<and> n < (sqrt_from n (k + 1) + 1) * (sqrt_from n (k + 1) + 1)"
      by simp
    with step show ?thesis by simp
  next
    case False
    with "1.prems" have "sqrt_from n k = k"
      by (subst sqrt_from.simps) simp
    with False "1.prems" show ?thesis by simp
  qed
qed

lemma floor_sqrt_bounds:
  assumes "0 \<le> n"
  shows "0 \<le> floor_sqrt n" "floor_sqrt n * floor_sqrt n \<le> n"
    "n < (floor_sqrt n + 1) * (floor_sqrt n + 1)"
  using sqrt_from_bounds [of 0 n] assms by (simp_all add: floor_sqrt_def)

lemma floor_sqrt_real:
  assumes "0 \<le> n"
  shows "floor_sqrt n = \<lfloor>sqrt (real_of_int n)\<rfloor>"
proof -
  let ?k = "floor_sqrt n"
  note b = floor_sqrt_bounds [OF assms]
  have "real_of_int ?k \<le> sqrt (real_of_int n)"
  proof (rule real_le_rsqrt)
    have "real_of_int (?k * ?k) \<le> real_of_int n" using b(2) by (simp only: of_int_le_iff)
    then show "(real_of_int ?k)\<^sup>2 \<le> real_of_int n" by (simp add: power2_eq_square)
  qed
  moreover have "sqrt (real_of_int n) < real_of_int ?k + 1"
  proof (rule real_less_lsqrt)
    show "0 \<le> real_of_int ?k + 1" using b(1) by simp
    have "real_of_int n < real_of_int ((?k + 1) * (?k + 1))" using b(3) by (simp only: of_int_less_iff)
    then show "real_of_int n < (real_of_int ?k + 1)\<^sup>2" by (simp add: power2_eq_square)
  qed
  ultimately have "\<lfloor>sqrt (real_of_int n)\<rfloor> = ?k" by (rule floor_unique)
  then show ?thesis by simp
qed

lemma c_quot_nonneg: "0 \<le> a \<Longrightarrow> 0 < b \<Longrightarrow> c_quot a b = a div b"
  by (cases "a = 0") (simp_all add: c_quot_def)

lemma c_rem_nonneg: "0 \<le> a \<Longrightarrow> 0 < b \<Longrightarrow> c_rem a b = a mod b"
  by (simp add: c_rem_def c_quot_nonneg minus_mult_div_eq_mod)

lemma c_rem_dvd: "0 \<le> a \<Longrightarrow> 0 < b \<Longrightarrow> c_rem a b = 0 \<longleftrightarrow> b dvd a"
  by (simp add: c_rem_nonneg dvd_eq_mod_eq_0)

lemma divisorLoop_largest:
  "0 \<le> input \<Longrightarrow> 1 \<le> testNum \<Longrightarrow>
     \<exists>r. divisorLoop input testNum = Inr r \<and> 1 \<le> r \<and> r \<le> testNum \<and> r dvd input
       \<and> (\<forall>d. r < d \<and> d \<le> testNum \<longrightarrow> \<not> d dvd input)"
proof (induction input testNum rule: divisorLoop.induct)
  case (1 input testNum)
  show ?case
  proof (cases "testNum dvd input")
    case True
    with "1.prems" have "divisorLoop input testNum = Inr testNum"
      by (subst divisorLoop.simps) (simp add: c_rem_dvd)
    with True "1.prems" show ?thesis by auto
  next
    case False
    then have "testNum \<noteq> 1" by auto
    with "1.prems" have big: "1 \<le> testNum - 1" by simp
    from False "1.prems" have rem: "c_rem input testNum \<noteq> 0"
      by (simp add: c_rem_dvd)
    from big have low: "\<not> testNum - 1 < INT_MIN" by (simp add: INT_MIN_def)
    from "1.prems" rem low have step: "divisorLoop input testNum = divisorLoop input (testNum - 1)"
      by (subst divisorLoop.simps) simp
    from "1.prems" have "testNum \<noteq> 0" by simp
    from "1.IH" [OF this rem low "1.prems"(1) big] obtain r where
      r: "divisorLoop input (testNum - 1) = Inr r" "1 \<le> r" "r \<le> testNum - 1" "r dvd input"
      and none: "\<forall>d. r < d \<and> d \<le> testNum - 1 \<longrightarrow> \<not> d dvd input"
      by blast
    have "\<not> d dvd input" if "r < d \<and> d \<le> testNum" for d
    proof (cases "d = testNum")
      case True
      with False show ?thesis by simp
    next
      case False
      with that have "r < d \<and> d \<le> testNum - 1" by simp
      with none show ?thesis by blast
    qed
    with r step show ?thesis by auto
  qed
qed

lemma divisorLoop_faults:
  "divisorLoop input testNum \<noteq> Inl InvalidArgument \<and> divisorLoop input testNum \<noteq> Inl NanToInt"
proof (induction input testNum rule: divisorLoop.induct)
  case (1 input testNum)
  then show ?case
    by (subst divisorLoop.simps, subst (2) divisorLoop.simps) simp
qed

lemma evenCover_eq:
  "1 \<le> n \<Longrightarrow> n < INT_MAX \<Longrightarrow> evenCover n = Inr (if even n \<or> n \<le> 1 then n else n + 1)"
  by (auto simp add: evenCover_def c_rem_nonneg even_iff_mod_2_eq_zero)

lemma floor_sqrt_pos: "1 \<le> n \<Longrightarrow> 1 \<le> floor_sqrt n"
proof -
  assume n: "1 \<le> n"
  then have b: "0 \<le> floor_sqrt n" "n < (floor_sqrt n + 1) * (floor_sqrt n + 1)"
    using floor_sqrt_bounds [of n] by simp_all
  show ?thesis
  proof (rule ccontr)
    assume "\<not> 1 \<le> floor_sqrt n"
    with b(1) have "floor_sqrt n = 0" by simp
    with b(2) n show False by simp
  qed
qed

lemma factors_of_cover:
  assumes m: "1 \<le> m"
  shows "\<exists>r. divisorLoop m (floor_sqrt m) = Inr r \<and> 1 \<le> r \<and> r \<le> floor_sqrt m \<and> r dvd m
       \<and> (\<forall>d. r < d \<and> d \<le> floor_sqrt m \<longrightarrow> \<not> d dvd m)
       \<and> r * c_quot m r = m \<and> r \<le> c_quot m r \<and> c_quot m r = m div r"
proof -
  from m have m0: "0 \<le> m" by simp
  from divisorLoop_largest [OF m0 floor_sqrt_pos [OF m]] obtain r where
    r: "divisorLoop m (floor_sqrt m) = Inr r" "1 \<le> r" "r \<le> floor_sqrt m" "r dvd m"
    and none: "\<forall>d. r < d \<and> d \<le> floor_sqrt m \<longrightarrow> \<not> d dvd m"
    by blast
  from r(2) m0 have q: "c_quot m r = m div r" by (simp add: c_quot_nonneg)
  from r(4) have prod: "r * (m div r) = m" by simp
  have "r * r \<le> floor_sqrt m * floor_sqrt m"
    using r(2,3) by (intro mult_mono) simp_all
  also have "\<dots> \<le> m" using floor_sqrt_bounds(2) [OF m0] .
  finally have "r * r \<le> r * (m div r)" using prod by simp
  with r(2) have "r \<le> m div r" by (simp add: mult_le_cancel_left)
  with r none q prod show ?thesis by auto
qed

text \<open>
  C8, on the arguments for which the code has a result. For every \<open>n\<close> from 1 up to, but
  not including, the largest \<^verbatim>\<open>int\<close>, \<^verbatim>\<open>getClosestFactors\<close> returns a pair \<open>(r, c)\<close> with
  \<open>r * c \<ge> n\<close> and \<open>r \<le> c\<close>: with \<open>m\<close> the even cover of \<open>n\<close> (\<open>n\<close> itself if \<open>n\<close> is even
  or at most 1, else \<open>n + 1\<close>), \<open>r\<close> is the largest divisor of \<open>m\<close> that does not exceed the
  integer part of the square root of \<open>m\<close>, and \<open>c\<close> is \<open>m\<close> divided by \<open>r\<close>. The arguments
  6, 7 and 1 give \<open>(2, 3)\<close>, \<open>(2, 4)\<close> and \<open>(1, 1)\<close>.
\<close>

theorem getClosestFactors_factors:
  "(1 \<le> n \<and> n < INT_MAX \<longrightarrow>
      (\<exists>r c m. m = (if even n \<or> n \<le> 1 then n else n + 1)
         \<and> getClosestFactors n = Inr (r, c)
         \<and> n \<le> r * c \<and> r \<le> c
         \<and> 1 \<le> r \<and> r dvd m \<and> r \<le> floor_sqrt m
         \<and> (\<forall>d. r < d \<and> d \<le> floor_sqrt m \<longrightarrow> \<not> d dvd m)
         \<and> floor_sqrt m = \<lfloor>sqrt (real_of_int m)\<rfloor>
         \<and> c = m div r \<and> r * c = m))
   \<and> getClosestFactors 6 = Inr (2, 3)
   \<and> getClosestFactors 7 = Inr (2, 4)
   \<and> getClosestFactors 1 = Inr (1, 1)"
proof (intro conjI impI)
  assume n: "1 \<le> n \<and> n < INT_MAX"
  define m where "m = (if even n \<or> n \<le> 1 then n else n + 1)"
  from n have cover: "evenCover n = Inr m"
    by (simp add: evenCover_eq m_def)
  from n have m: "1 \<le> m" "n \<le> m" by (simp_all add: m_def)
  from factors_of_cover [OF m(1)] obtain r where
    r: "divisorLoop m (floor_sqrt m) = Inr r" "1 \<le> r" "r \<le> floor_sqrt m" "r dvd m"
       "r * c_quot m r = m" "r \<le> c_quot m r" "c_quot m r = m div r"
    and none: "\<forall>d. r < d \<and> d \<le> floor_sqrt m \<longrightarrow> \<not> d dvd m"
    by blast
  from m(1) have run: "getClosestFactors n = Inr (r, c_quot m r)"
    by (simp add: getClosestFactors_def cover r(1))
  from m(1) have fl: "floor_sqrt m = \<lfloor>sqrt (real_of_int m)\<rfloor>"
    by (simp add: floor_sqrt_real)
  have "m = (if even n \<or> n \<le> 1 then n else n + 1)
         \<and> getClosestFactors n = Inr (r, c_quot m r)
         \<and> n \<le> r * c_quot m r \<and> r \<le> c_quot m r
         \<and> 1 \<le> r \<and> r dvd m \<and> r \<le> floor_sqrt m
         \<and> (\<forall>d. r < d \<and> d \<le> floor_sqrt m \<longrightarrow> \<not> d dvd m)
         \<and> floor_sqrt m = \<lfloor>sqrt (real_of_int m)\<rfloor>
         \<and> c_quot m r = m div r \<and> r * c_quot m r = m"
    using run r none fl m(2) by (simp add: m_def)
  then show "\<exists>r c m. m = (if even n \<or> n \<le> 1 then n else n + 1)
         \<and> getClosestFactors n = Inr (r, c)
         \<and> n \<le> r * c \<and> r \<le> c
         \<and> 1 \<le> r \<and> r dvd m \<and> r \<le> floor_sqrt m
         \<and> (\<forall>d. r < d \<and> d \<le> floor_sqrt m \<longrightarrow> \<not> d dvd m)
         \<and> floor_sqrt m = \<lfloor>sqrt (real_of_int m)\<rfloor>
         \<and> c = m div r \<and> r * c = m"
    by (intro exI)
next
  show "getClosestFactors 6 = Inr (2, 3)"
    by (simp add: getClosestFactors_def evenCover_def c_rem_def c_quot_def floor_sqrt_def
        sqrt_from.simps divisorLoop.simps INT_MAX_def INT_MIN_def)
  show "getClosestFactors 7 = Inr (2, 4)"
    by (simp add: getClosestFactors_def evenCover_def c_rem_def c_quot_def floor_sqrt_def
        sqrt_from.simps divisorLoop.simps INT_MAX_def INT_MIN_def)
  show "getClosestFactors 1 = Inr (1, 1)"
    by (simp add: getClosestFactors_def evenCover_def c_rem_def c_quot_def floor_sqrt_def
        sqrt_from.simps divisorLoop.simps INT_MAX_def INT_MIN_def)
qed

theorem getClosestFactors_factors_witness:
  "(1 :: int) \<le> 5 \<and> 5 < INT_MAX \<and> getClosestFactors 5 = Inr (2, 3)"
proof -
  have h: "(1 :: int) \<le> 5 \<and> 5 < INT_MAX" by (simp add: INT_MAX_def)
  have fs: "floor_sqrt 6 = 2"
    by (simp add: floor_sqrt_def sqrt_from.simps)
  from getClosestFactors_factors [of 5, THEN conjunct1, THEN mp, OF h]
  obtain r c m where m: "m = (if even (5 :: int) \<or> (5 :: int) \<le> 1 then 5 else 5 + 1)"
    and run: "getClosestFactors 5 = Inr (r, c)"
    and r: "1 \<le> r" "r \<le> floor_sqrt m"
    and none: "\<forall>d. r < d \<and> d \<le> floor_sqrt m \<longrightarrow> \<not> d dvd m"
    and c: "c = m div r"
    by blast
  from m have m6: "m = 6" by simp
  have "r = 2"
  proof (rule ccontr)
    assume "r \<noteq> 2"
    with r fs m6 have "r < 2 \<and> 2 \<le> floor_sqrt m" by simp
    with none have "\<not> (2 :: int) dvd m" by blast
    with m6 show False by simp
  qed
  with c m6 have "c = 3" by simp
  with run \<open>r = 2\<close> h show ?thesis by simp
qed

text \<open>
  The function does not return a pair for every argument: for 0 the first test of the
  loop divides by zero, and for the largest \<^verbatim>\<open>int\<close> the increment overflows.
\<close>

theorem getClosestFactors_counterexample:
  "getClosestFactors 0 = Inl DivisionByZero \<and> getClosestFactors 2147483647 = Inl SignedOverflow"
  by (simp add: getClosestFactors_def evenCover_def c_rem_def c_quot_def floor_sqrt_def
      sqrt_from.simps divisorLoop.simps INT_MAX_def INT_MIN_def)

text \<open>
  C9, as the code has it. \<^verbatim>\<open>getClosestFactors\<close> has no test of its argument and never
  reports \<open>InvalidArgument\<close>. A negative argument reaches the square root, whose result is
  a NaN, and the conversion of the NaN to \<^verbatim>\<open>int\<close>, which is not defined: the code defines
  no pair of rows and columns for a negative argument.
\<close>

theorem getClosestFactors_negative:
  "(n < 0 \<longrightarrow> getClosestFactors n = Inl NanToInt)
   \<and> (n < 0 \<longrightarrow> (\<forall>rows cols. getClosestFactors n \<noteq> Inr (rows, cols)))
   \<and> getClosestFactors n \<noteq> Inl InvalidArgument"
proof -
  have neg: "getClosestFactors n = Inl NanToInt" if "n < 0"
    using that by (simp add: getClosestFactors_def evenCover_def)
  have "getClosestFactors n \<noteq> Inl InvalidArgument"
    using divisorLoop_faults
    by (auto simp add: getClosestFactors_def evenCover_def split: sum.splits)
  with neg show ?thesis by auto
qed

theorem getClosestFactors_negative_witness:
  "(- 1 :: int) < 0 \<and> getClosestFactors (- 1) = Inl NanToInt"
proof -
  have h: "(- 1 :: int) < 0" by simp
  from getClosestFactors_negative [of "- 1", THEN conjunct1, THEN mp, OF h] h
  show ?thesis by (intro conjI)
qed

text \<open>For the argument \<open>-4\<close> the outcome is not the report of an invalid argument.\<close>

theorem getClosestFactors_negative_counterexample:
  "getClosestFactors (- 4) = Inl NanToInt \<and> getClosestFactors (- 4) \<noteq> Inl InvalidArgument"
  by (simp add: getClosestFactors_def evenCover_def c_rem_def c_quot_def)

end
